theory Spec2Isabelle
  imports Main
begin

section \<open>The log stream client of \<^verbatim>\<open>ray/util/client/logsclient.py\<close>\<close>

subsection \<open>Messages\<close>

text \<open>
  The two protobuf messages the module touches. \<^verbatim>\<open>LogSettingsRequest()\<close> builds a
  message with every field at its protobuf default; the methods then assign fields.
  The generated message classes (\<^verbatim>\<open>ray_client_pb2\<close>) are not among the sources. There
  \<^verbatim>\<open>loglevel\<close> is a 32-bit signed integer field: assigning it a Python integer outside
  that range raises \<^verbatim>\<open>ValueError\<close> and leaves the message as it was. \<open>int32\<close> is the
  range.
\<close>

record LogSettingsRequest =
  enabled :: bool
  loglevel :: int

definition LogSettingsRequest :: LogSettingsRequest where
  "LogSettingsRequest = \<lparr>enabled = False, loglevel = 0\<rparr>"

definition int32 :: "int \<Rightarrow> bool" where
  "int32 v = (- 2147483648 \<le> v \<and> v \<le> 2147483647)"

record LogRecord =
  level :: int
  msg :: string

text \<open>
  An item of \<^verbatim>\<open>request_queue\<close>: a request, or \<^verbatim>\<open>None\<close>, which \<^verbatim>\<open>close\<close> puts and
  \<^verbatim>\<open>iter(self.request_queue.get, None)\<close> takes as its sentinel.
\<close>

type_synonym item = "LogSettingsRequest option"

subsection \<open>Exceptions and the gRPC status codes\<close>

datatype StatusCode =
    OK | CANCELLED | UNKNOWN | INVALID_ARGUMENT | DEADLINE_EXCEEDED | NOT_FOUND
  | ALREADY_EXISTS | PERMISSION_DENIED | RESOURCE_EXHAUSTED | FAILED_PRECONDITION
  | ABORTED | OUT_OF_RANGE | UNIMPLEMENTED | INTERNAL | UNAVAILABLE | DATA_LOSS
  | UNAUTHENTICATED

text \<open>
  A \<^verbatim>\<open>grpc.RpcError\<close> as the module reads it: \<^verbatim>\<open>e.code()\<close> and the text that the
  f-string \<^verbatim>\<open>{e}\<close> renders.
\<close>

record RpcError =
  code :: StatusCode
  str :: string

text \<open>
  What a statement can raise: a \<^verbatim>\<open>grpc.RpcError\<close>, which the \<^verbatim>\<open>except\<close> clause of
  \<^verbatim>\<open>_log_main\<close> names, or any other exception, which it does not. The errors the
  transport raises carry a status (\<open>Rpc\<close>). The class \<^verbatim>\<open>grpc.RpcError\<close> itself has no
  \<^verbatim>\<open>code\<close> method, so an instance of the bare class, which only a sink method could
  raise, is caught by the same clause but carries no status (\<open>Rpc_without_status\<close>, with
  its text).
\<close>

datatype exn = Rpc RpcError | Rpc_without_status string | Other string

subsection \<open>The module's logger and the process's standard streams\<close>

text \<open>
  The calls made on the module's \<^verbatim>\<open>logger\<close>, in order. What the logging library does
  with a call (level filtering, handlers) is outside the module. \<^verbatim>\<open>levelno\<close> is the
  severity a call logs at: \<^verbatim>\<open>logging.INFO\<close> is 20 and \<^verbatim>\<open>logger.exception\<close> logs at
  \<^verbatim>\<open>logging.ERROR\<close>, which is 40.
\<close>

datatype logger_call =
    Logger_log int string
  | Logger_info string
  | Logger_exception string

fun levelno :: "logger_call \<Rightarrow> int" where
  "levelno (Logger_log l m) = l"
| "levelno (Logger_info m) = 20"
| "levelno (Logger_exception m) = 40"

datatype thread = Alive | Finished

text \<open>
  Everything the methods read or write: the fields of the \<^verbatim>\<open>LogstreamClient\<close>
  (\<^verbatim>\<open>client_worker\<close>, \<^verbatim>\<open>_metadata\<close>, \<^verbatim>\<open>request_queue\<close>, \<^verbatim>\<open>log_thread\<close>), the module's
  logger (its level and the calls made on it), the text written so far to
  \<^verbatim>\<open>sys.stdout\<close> and \<^verbatim>\<open>sys.stderr\<close>, and the outbound half of the stream: the items
  the request iterator has yielded and whether it is exhausted.
\<close>

record 'w state =
  client_worker :: 'w
  metadata :: "(string \<times> string) list"
  request_queue :: "item list"
  log_thread :: "thread option"
  logger_level :: int
  logger_calls :: "logger_call list"
  stdout :: string
  stderr :: string
  outbound :: "item list"
  outbound_closed :: bool

subsection \<open>The queue\<close>

text \<open>\<^verbatim>\<open>queue.Queue()\<close> is unbounded and first-in first-out: \<^verbatim>\<open>put\<close> appends.\<close>

definition put :: "item \<Rightarrow> 'w state \<Rightarrow> 'w state" where
  "put x s = s\<lparr>request_queue := request_queue s @ [x]\<rparr>"

subsection \<open>The logger's methods\<close>

definition logger_setLevel :: "int \<Rightarrow> 'w state \<Rightarrow> 'w state" where
  "logger_setLevel lv s = s\<lparr>logger_level := lv\<rparr>"

definition logger_log :: "int \<Rightarrow> string \<Rightarrow> 'w state \<Rightarrow> 'w state" where
  "logger_log lv m s = s\<lparr>logger_calls := logger_calls s @ [Logger_log lv m]\<rparr>"

definition logger_info :: "string \<Rightarrow> 'w state \<Rightarrow> 'w state" where
  "logger_info m s = s\<lparr>logger_calls := logger_calls s @ [Logger_info m]\<rparr>"

definition logger_exception :: "string \<Rightarrow> 'w state \<Rightarrow> 'w state" where
  "logger_exception m s = s\<lparr>logger_calls := logger_calls s @ [Logger_exception m]\<rparr>"

subsection \<open>The sinks\<close>

text \<open>
  \<^verbatim>\<open>log\<close> calls \<^verbatim>\<open>logger.log(level=level, msg=msg)\<close>. \<^verbatim>\<open>stdstream\<close> picks
  \<^verbatim>\<open>sys.stderr\<close> when the level is \<open>-2\<close> and \<^verbatim>\<open>sys.stdout\<close> otherwise, and prints the
  message there with the empty string as \<^verbatim>\<open>end\<close>.
\<close>

definition log :: "int \<Rightarrow> string \<Rightarrow> 'w state \<Rightarrow> 'w state" where
  "log lv m s = logger_log lv m s"

definition stdstream :: "int \<Rightarrow> string \<Rightarrow> 'w state \<Rightarrow> 'w state" where
  "stdstream lv m s =
     (if lv = - 2 then s\<lparr>stderr := stderr s @ m @ ''''\<rparr>
      else s\<lparr>stdout := stdout s @ m @ ''''\<rparr>)"

text \<open>
  Both docstrings say the method can be overridden, and \<^verbatim>\<open>_log_main\<close> calls them
  through \<^verbatim>\<open>self\<close>. So the worker takes the two methods as arguments: a method returns
  the state it leaves and the exception it raised, if any. \<open>returning\<close> is a method
  that always returns normally, as the two above do here.
\<close>

type_synonym 'w sink = "int \<Rightarrow> string \<Rightarrow> 'w state \<Rightarrow> 'w state \<times> exn option"

definition returning :: "(int \<Rightarrow> string \<Rightarrow> 'w state \<Rightarrow> 'w state) \<Rightarrow> 'w sink" where
  "returning f lv m s = (f lv m s, None)"

subsection \<open>The caller's methods\<close>

text \<open>
  \<^verbatim>\<open>set_logstream_level\<close> sets the logger's level first; the assignment to
  \<^verbatim>\<open>req.loglevel\<close> comes after it and before the \<^verbatim>\<open>put\<close>, so a level outside the
  field's range ends the call with \<^verbatim>\<open>ValueError\<close>, the logger's level changed and
  nothing put. A method returns the state it leaves and the exception it raised, if any.
\<close>

definition set_logstream_level :: "int \<Rightarrow> 'w state \<Rightarrow> 'w state \<times> exn option" where
  "set_logstream_level lv s =
     (let s1 = logger_setLevel lv s;
          req = LogSettingsRequest;
          req = req\<lparr>enabled := True\<rparr>
      in if int32 lv then
           (let req = req\<lparr>loglevel := lv\<rparr> in (put (Some req) s1, None))
         else (s1, Some (Other ''ValueError'')))"

definition disable_logs :: "'w state \<Rightarrow> 'w state" where
  "disable_logs s =
     (let req = LogSettingsRequest;
          req = req\<lparr>enabled := False\<rparr>
      in put (Some req) s)"

subsection \<open>The request iterator\<close>

text \<open>
  \<^verbatim>\<open>iter(self.request_queue.get, None)\<close> is the outbound half of the stream. Each time
  the transport asks it for the next message it calls \<^verbatim>\<open>get\<close>, which removes the head
  of the queue and waits while the queue is empty; a result equal to \<^verbatim>\<open>None\<close> ends the
  iterator for good, and any other result is yielded. \<open>next_request\<close> is one such
  request: on an empty queue it makes no progress, and an exhausted iterator does not
  call \<^verbatim>\<open>get\<close> again.
\<close>

definition next_request :: "'w state \<Rightarrow> 'w state" where
  "next_request s =
     (if outbound_closed s then s
      else case request_queue s of
             [] \<Rightarrow> s
           | x # q \<Rightarrow>
               if x = None then s\<lparr>request_queue := q, outbound_closed := True\<rparr>
               else s\<lparr>request_queue := q, outbound := outbound s @ [x]\<rparr>)"

text \<open>The transport takes everything the queue holds now.\<close>

definition drain :: "'w state \<Rightarrow> 'w state" where
  "drain s = (next_request ^^ length (request_queue s)) s"

subsection \<open>The failure classifier\<close>

definition process_rpc_error :: "RpcError \<Rightarrow> 'w state \<Rightarrow> 'w state" where
  "process_rpc_error e s =
     (if code e = CANCELLED then logger_info ''Cancelling logs channel'' s
      else if code e \<in> {UNAVAILABLE, RESOURCE_EXHAUSTED} then
        logger_info ''Server disconnected from logs channel'' s
      else
        logger_exception (''Got Error from logger channel -- shutting down: '' @ str e) s)"

subsection \<open>The worker\<close>

text \<open>
  The inbound half, as the \<^verbatim>\<open>for\<close> loop sees it: asking for the next record yields a
  record, ends the loop, raises, or never answers.
\<close>

datatype log_stream =
    Next LogRecord log_stream
  | StopIteration
  | Raise exn
  | Blocks

datatype completion = Returns | Raises exn | Blocked

fun for_record :: "'w sink \<Rightarrow> 'w sink \<Rightarrow> log_stream \<Rightarrow> 'w state \<Rightarrow> 'w state \<times> completion" where
  "for_record stdstream_m log_m StopIteration s = (s, Returns)"
| "for_record stdstream_m log_m (Raise e) s = (s, Raises e)"
| "for_record stdstream_m log_m Blocks s = (s, Blocked)"
| "for_record stdstream_m log_m (Next record rest) s =
     (case (if level record < 0 then stdstream_m (level record) (msg record) s
            else (s, None)) of
        (s1, Some e) \<Rightarrow> (s1, Raises e)
      | (s1, None) \<Rightarrow>
          (case log_m (level record) (msg record) s1 of
             (s2, Some e) \<Rightarrow> (s2, Raises e)
           | (s2, None) \<Rightarrow> for_record stdstream_m log_m rest s2))"

text \<open>
  \<^verbatim>\<open>_log_main\<close>. \<^verbatim>\<open>stub.Logstream\<close> belongs to the transport and is an argument: from
  what the outbound half carries (the messages, and whether it was closed) and the
  metadata it gives the inbound half. The \<^verbatim>\<open>try\<close> statement catches a
  \<^verbatim>\<open>grpc.RpcError\<close> and nothing else, and calls \<^verbatim>\<open>_process_rpc_error\<close> on it. On an
  error without a status the first thing that method does, \<^verbatim>\<open>e.code()\<close>, raises
  \<^verbatim>\<open>AttributeError\<close> inside the handler, before any call on the logger.
\<close>

type_synonym transport = "item list \<Rightarrow> bool \<Rightarrow> (string \<times> string) list \<Rightarrow> log_stream"

definition log_main ::
  "transport \<Rightarrow> 'w sink \<Rightarrow> 'w sink \<Rightarrow> 'w state \<Rightarrow> 'w state \<times> completion" where
  "log_main Logstream stdstream_m log_m s =
     (let s1 = drain s;
          log_stream = Logstream (outbound s1) (outbound_closed s1) (metadata s1)
      in case for_record stdstream_m log_m log_stream s1 of
           (s2, Raises (Rpc e)) \<Rightarrow> (process_rpc_error e s2, Returns)
         | (s2, Raises (Rpc_without_status d)) \<Rightarrow> (s2, Raises (Other ''AttributeError''))
         | (s2, c) \<Rightarrow> (s2, c))"

subsection \<open>Construction and shutdown\<close>

text \<open>
  \<^verbatim>\<open>__init__\<close> makes an empty queue and starts the thread. The logger is the module's
  own, at the level \<^verbatim>\<open>logging.getLogger\<close> gives a new logger (\<^verbatim>\<open>NOTSET\<close>, 0).
\<close>

definition init :: "'w \<Rightarrow> (string \<times> string) list \<Rightarrow> 'w state" where
  "init w md =
     \<lparr>client_worker = w, metadata = md, request_queue = [], log_thread = Some Alive,
      logger_level = 0, logger_calls = [], stdout = [], stderr = [],
      outbound = [], outbound_closed = False\<rparr>"

text \<open>
  \<^verbatim>\<open>Thread.join\<close> returns once the thread's target has returned or raised, and at once
  for a thread that has finished; it never raises what the target raised. The target
  is \<^verbatim>\<open>_log_main\<close>, run here to its end at the time of the join. The traceback
  that the threading module prints for an exception the target did not catch is not
  part of the state.
\<close>

fun join ::
  "transport \<Rightarrow> 'w sink \<Rightarrow> 'w sink \<Rightarrow> thread \<Rightarrow> 'w state \<Rightarrow> 'w state \<times> completion" where
  "join Logstream stdstream_m log_m Finished s = (s, Returns)"
| "join Logstream stdstream_m log_m Alive s =
     (case log_main Logstream stdstream_m log_m s of
        (s1, Blocked) \<Rightarrow> (s1, Blocked)
      | (s1, c) \<Rightarrow> (s1\<lparr>log_thread := Some Finished\<rparr>, Returns))"


subsection \<open>Callers and the transport, interleaved\<close>

text \<open>
  The queue is the one place where the callers and the stream meet. A schedule lists
  what happens to it, in the order it happens: a caller's \<^verbatim>\<open>set_logstream_level\<close>
  or \<^verbatim>\<open>disable_logs\<close>, the \<^verbatim>\<open>put(None)\<close> of a caller's \<^verbatim>\<open>close\<close>, or the transport
  asking the request iterator for the next message. A call that raises gives its
  exception to its caller; the state it leaves is what the others see.
\<close>

datatype call = Set_logstream_level int | Disable_logs

datatype event = Caller call | Close_put | Transport_next

fun do_call :: "call \<Rightarrow> 'w state \<Rightarrow> 'w state \<times> exn option" where
  "do_call (Set_logstream_level lv) s = set_logstream_level lv s"
| "do_call Disable_logs s = (disable_logs s, None)"

fun step :: "event \<Rightarrow> 'w state \<Rightarrow> 'w state" where
  "step (Caller c) s = fst (do_call c s)"
| "step Close_put s = put None s"
| "step Transport_next s = next_request s"

fun run :: "event list \<Rightarrow> 'w state \<Rightarrow> 'w state" where
  "run [] s = s"
| "run (e # es) s = run es (step e s)"

subsection \<open>Reading a schedule and a stream\<close>

text \<open>
  The request a call builds (from the bodies of \<^verbatim>\<open>set_logstream_level\<close> and
  \<^verbatim>\<open>disable_logs\<close>), whether the call gets as far as its \<^verbatim>\<open>put\<close> (it does unless the
  level is outside the field's range), the calls of a schedule in the order they were
  made, and the items an event puts on the queue.
\<close>

fun request_of :: "call \<Rightarrow> LogSettingsRequest" where
  "request_of (Set_logstream_level lv) = \<lparr>enabled = True, loglevel = lv\<rparr>"
| "request_of Disable_logs = \<lparr>enabled = False, loglevel = 0\<rparr>"

fun accepted :: "call \<Rightarrow> bool" where
  "accepted (Set_logstream_level lv) = int32 lv"
| "accepted Disable_logs = True"

fun calls :: "event list \<Rightarrow> call list" where
  "calls [] = []"
| "calls (Caller c # es) = c # calls es"
| "calls (e # es) = calls es"

fun enqueued :: "event \<Rightarrow> item list" where
  "enqueued (Caller c) = (if accepted c then [Some (request_of c)] else [])"
| "enqueued Close_put = [None]"
| "enqueued Transport_next = []"

text \<open>
  The items ahead of the first sentinel; what the outbound half carries in the end (what
  it has carried, and what waits in the queue ahead of a sentinel); and whether a
  sentinel has been put.
\<close>

definition before_sentinel :: "item list \<Rightarrow> item list" where
  "before_sentinel q = takeWhile (\<lambda>x. x \<noteq> None) q"

definition flow :: "'w state \<Rightarrow> item list" where
  "flow s = outbound s @ (if outbound_closed s then [] else before_sentinel (request_queue s))"

definition sealed :: "'w state \<Rightarrow> bool" where
  "sealed s = (outbound_closed s \<or> None \<in> set (request_queue s))"

text \<open>The records an inbound stream yields, and how it ends.\<close>

fun records_of :: "log_stream \<Rightarrow> LogRecord list" where
  "records_of (Next record rest) = record # records_of rest"
| "records_of StopIteration = []"
| "records_of (Raise e) = []"
| "records_of Blocks = []"

fun ending :: "log_stream \<Rightarrow> completion" where
  "ending (Next record rest) = ending rest"
| "ending StopIteration = Returns"
| "ending (Raise e) = Raises e"
| "ending Blocks = Blocked"

subsection \<open>Inputs for the examples\<close>


definition scripted :: "log_stream \<Rightarrow> transport" where
  "scripted st sent closed md = st"

definition closing_server :: transport where
  "closing_server sent closed md = (if closed then StopIteration else Blocks)"

section \<open>Properties\<close>

subsection \<open>The sinks and the caller's methods\<close>

text \<open>
  C2: \<^verbatim>\<open>stdstream(level, msg)\<close> appends the message, unchanged and with nothing after
  it, to the standard error stream when the level is \<open>-2\<close> and to the standard output
  stream for every other level; it touches nothing else, and the other of the two
  streams stays as it was.
\<close>

theorem stdstream_routes_verbatim:
  "stdstream lv m s =
     (if lv = - 2 then s\<lparr>stderr := stderr s @ m\<rparr> else s\<lparr>stdout := stdout s @ m\<rparr>)"
  by (simp add: stdstream_def)

text \<open>
  C10: \<^verbatim>\<open>disable_logs()\<close> appends one request to the queue, with \<^verbatim>\<open>enabled\<close> false, and
  changes nothing else: the logger's level, the calls made on the logger, the standard
  streams, the thread and the other fields are those of the state before.
\<close>

theorem disable_logs_only_enqueues:
  "disable_logs s =
     s\<lparr>request_queue := request_queue s @ [Some \<lparr>enabled = False, loglevel = 0\<rparr>]\<rparr>"
  by (simp add: disable_logs_def put_def LogSettingsRequest_def)

subsection \<open>The queue and the outbound half\<close>

lemma before_sentinel_simps [simp]:
  "before_sentinel [] = []"
  "before_sentinel (None # q) = []"
  "before_sentinel (Some r # q) = Some r # before_sentinel q"
  by (simp_all add: before_sentinel_def)

lemma before_sentinel_append:
  "before_sentinel (q @ r) = (if None \<in> set q then before_sentinel q else q @ before_sentinel r)"
  by (induction q) (auto simp: before_sentinel_def)

lemma before_sentinel_id: "None \<notin> set q \<Longrightarrow> before_sentinel q = q"
proof (induction q)
  case Nil
  then show ?case by simp
next
  case (Cons x q)
  then show ?case by (cases x) simp_all
qed

lemma before_sentinel_length: "length (before_sentinel q) \<le> length q"
  by (simp add: before_sentinel_def length_takeWhile_le)

lemma None_notin_before_sentinel: "None \<notin> set (before_sentinel q)"
  unfolding before_sentinel_def by (auto dest: set_takeWhileD)

text \<open>
  A call reaches the stream only through the queue, where it appends its request if it
  gets as far as the \<^verbatim>\<open>put\<close>.
\<close>

lemma set_logstream_level_eq:
  "set_logstream_level lv s =
     (if int32 lv then
        (s\<lparr>logger_level := lv,
           request_queue := request_queue s @ [Some \<lparr>enabled = True, loglevel = lv\<rparr>]\<rparr>, None)
      else (s\<lparr>logger_level := lv\<rparr>, Some (Other ''ValueError'')))"
  by (simp add: set_logstream_level_def logger_setLevel_def put_def LogSettingsRequest_def)

lemma do_call_fields:
  "request_queue (fst (do_call c s)) = request_queue s @ enqueued (Caller c)"
  "outbound (fst (do_call c s)) = outbound s"
  "outbound_closed (fst (do_call c s)) = outbound_closed s"
  by (cases c; simp add: set_logstream_level_eq disable_logs_def put_def
        LogSettingsRequest_def)+

lemma do_call_raises: "snd (do_call c s) = None \<longleftrightarrow> accepted c"
  by (cases c) (simp_all add: set_logstream_level_eq)

lemma enqueued_Caller_no_sentinel: "None \<notin> set (enqueued (Caller c))"
  by simp

text \<open>
  The invariant of the queue: an event adds to what the outbound half carries in the
  end exactly the requests it puts, so long as no sentinel has been put; the transport
  taking a message changes nothing of it.
\<close>

lemma flow_step:
  "flow (step e s) = flow s @ (if sealed s then [] else before_sentinel (enqueued e))"
proof (cases e)
  case (Caller c)
  have "before_sentinel (enqueued (Caller c)) = enqueued (Caller c)"
    by (rule before_sentinel_id) (rule enqueued_Caller_no_sentinel)
  then show ?thesis using Caller
    by (simp add: flow_def sealed_def do_call_fields before_sentinel_append
        before_sentinel_id del: enqueued.simps)
next
  case Close_put
  then show ?thesis
    by (simp add: flow_def sealed_def put_def before_sentinel_append before_sentinel_id)
next
  case Transport_next
  show ?thesis
  proof (cases "request_queue s")
    case Nil
    then show ?thesis using Transport_next by (simp add: flow_def sealed_def next_request_def)
  next
    case (Cons x q)
    then show ?thesis using Transport_next
      by (cases x) (simp_all add: flow_def sealed_def next_request_def)
  qed
qed

lemma sealed_step: "sealed (step e s) = (sealed s \<or> None \<in> set (enqueued e))"
proof (cases e)
  case (Caller c)
  then show ?thesis
    using enqueued_Caller_no_sentinel [of c]
    by (simp add: sealed_def do_call_fields del: enqueued.simps)
next
  case Close_put
  then show ?thesis by (simp add: sealed_def put_def)
next
  case Transport_next
  then show ?thesis
    by (cases "request_queue s") (auto simp: sealed_def next_request_def)
qed

lemma flow_run:
  "flow (run evs s) =
     flow s @ (if sealed s then [] else before_sentinel (concat (map enqueued evs)))"
proof (induction evs arbitrary: s)
  case Nil
  then show ?case by simp
next
  case (Cons e es)
  have "flow (run (e # es) s) = flow (step e s) @
      (if sealed (step e s) then [] else before_sentinel (concat (map enqueued es)))"
    by (simp add: Cons.IH)
  also have "\<dots> = (flow s @ (if sealed s then [] else before_sentinel (enqueued e))) @
      (if sealed s \<or> None \<in> set (enqueued e) then []
       else before_sentinel (concat (map enqueued es)))"
    by (simp only: flow_step sealed_step)
  also have "\<dots> = flow s @
      (if sealed s then [] else before_sentinel (enqueued e @ concat (map enqueued es)))"
    by (cases e) (simp_all add: before_sentinel_append)
  finally show ?case by simp
qed

lemma sealed_run: "sealed (run evs s) = (sealed s \<or> None \<in> set (concat (map enqueued evs)))"
  by (induction evs arbitrary: s) (auto simp: sealed_step simp del: enqueued.simps)

lemma enqueued_no_close:
  "Close_put \<notin> set evs \<Longrightarrow>
     concat (map enqueued evs) = map (\<lambda>c. Some (request_of c)) (filter accepted (calls evs))"
proof (induction evs)
  case Nil
  then show ?case by simp
next
  case (Cons e es)
  then show ?case by (cases e) simp_all
qed

lemma enqueued_before_close:
  "before_sentinel (concat (map enqueued evs)) =
     map (\<lambda>c. Some (request_of c))
       (filter accepted (calls (takeWhile (\<lambda>e. e \<noteq> Close_put) evs)))"
proof (induction evs)
  case Nil
  then show ?case by simp
next
  case (Cons e es)
  then show ?case by (cases e) simp_all
qed

lemma None_in_enqueued: "None \<in> set (concat (map enqueued evs)) \<longleftrightarrow> Close_put \<in> set evs"
proof (induction evs)
  case Nil
  then show ?case by simp
next
  case (Cons e es)
  then show ?case by (cases e) simp_all
qed

lemma flow_init: "flow (init w md) = []"
  by (simp add: flow_def init_def)

lemma sealed_init: "\<not> sealed (init w md)"
  by (simp add: sealed_def init_def)

lemma sealed_run_init: "sealed (run evs (init w md)) = (Close_put \<in> set evs)"
  unfolding sealed_run None_in_enqueued by (simp add: sealed_init)

text \<open>The request iterator, asked \<open>n\<close> times.\<close>

lemma next_request_closed: "outbound_closed s \<Longrightarrow> (next_request ^^ n) s = s"
  by (induction n) (simp_all add: next_request_def)

lemma next_request_funpow:
  "\<not> outbound_closed s \<Longrightarrow>
     outbound ((next_request ^^ n) s) = outbound s @ take n (before_sentinel (request_queue s)) \<and>
     outbound_closed ((next_request ^^ n) s) = (None \<in> set (take n (request_queue s)))"
proof (induction n arbitrary: s)
  case 0
  then show ?case by simp
next
  case (Suc n)
  have unfold: "(next_request ^^ Suc n) s = (next_request ^^ n) (next_request s)"
    by (simp add: funpow_swap1)
  show ?case
  proof (cases "request_queue s")
    case Nil
    then have "next_request s = s" by (simp add: next_request_def)
    then show ?thesis using Suc.IH [OF Suc.prems] Nil unfold by simp
  next
    case (Cons x q)
    show ?thesis
    proof (cases x)
      case None
      then have "outbound_closed (next_request s)" "outbound (next_request s) = outbound s"
        using Cons Suc.prems by (simp_all add: next_request_def)
      then show ?thesis using None Cons unfold by (simp add: next_request_closed)
    next
      case (Some r)
      then have st: "\<not> outbound_closed (next_request s)"
        "outbound (next_request s) = outbound s @ [Some r]"
        "request_queue (next_request s) = q"
        using Cons Suc.prems by (simp_all add: next_request_def)
      show ?thesis using Suc.IH [OF st(1)] st Some Cons unfold by simp
    qed
  qed
qed


lemma next_request_frame:
  "metadata (next_request s) = metadata s"
  "log_thread (next_request s) = log_thread s"
  "logger_calls (next_request s) = logger_calls s"
  "logger_level (next_request s) = logger_level s"
  "stdout (next_request s) = stdout s"
  "stderr (next_request s) = stderr s"
  by (simp_all add: next_request_def split: list.splits)

lemma next_request_funpow_frame:
  "metadata ((next_request ^^ n) s) = metadata s"
  "log_thread ((next_request ^^ n) s) = log_thread s"
  "logger_calls ((next_request ^^ n) s) = logger_calls s"
  "logger_level ((next_request ^^ n) s) = logger_level s"
  "stdout ((next_request ^^ n) s) = stdout s"
  "stderr ((next_request ^^ n) s) = stderr s"
  by (induction n) (simp_all add: next_request_frame)

lemma drain_frame:
  "metadata (drain s) = metadata s"
  "log_thread (drain s) = log_thread s"
  "logger_calls (drain s) = logger_calls s"
  "logger_level (drain s) = logger_level s"
  "stdout (drain s) = stdout s"
  "stderr (drain s) = stderr s"
  by (simp_all add: drain_def next_request_funpow_frame)

lemma drain_flow: "outbound (drain s) = flow s"
proof (cases "outbound_closed s")
  case True
  then show ?thesis by (simp add: drain_def flow_def next_request_closed)
next
  case False
  then show ?thesis
    using next_request_funpow [OF False, of "length (request_queue s)"]
    by (simp add: drain_def flow_def before_sentinel_length)
qed

lemma drain_sealed: "outbound_closed (drain s) = sealed s"
proof (cases "outbound_closed s")
  case True
  then show ?thesis by (simp add: drain_def sealed_def next_request_closed)
next
  case False
  then show ?thesis
    using next_request_funpow [OF False, of "length (request_queue s)"]
    by (simp add: drain_def sealed_def)
qed


text \<open>
  C4: on a stream that has just been opened, after the transport has asked the request
  iterator \<open>n\<close> times, the outbound half has carried the first \<open>n\<close> of the queue items
  that stand ahead of the first sentinel, in the queue's order; it is closed exactly
  when the sentinel is among the items dequeued so far; the sentinel is not among the
  messages carried. Once the transport has taken all the queue holds, the outbound
  half has carried exactly the items ahead of the first sentinel.
\<close>

theorem request_iterator_stops_at_sentinel:
  assumes "outbound s = []" and "\<not> outbound_closed s"
  shows "outbound ((next_request ^^ n) s) =
           take n (takeWhile (\<lambda>x. x \<noteq> None) (request_queue s)) \<and>
         outbound_closed ((next_request ^^ n) s) = (None \<in> set (take n (request_queue s))) \<and>
         None \<notin> set (outbound ((next_request ^^ n) s)) \<and>
         outbound (drain s) = takeWhile (\<lambda>x. x \<noteq> None) (request_queue s) \<and>
         outbound_closed (drain s) = (None \<in> set (request_queue s))"
proof -
  have a: "outbound ((next_request ^^ n) s) = take n (before_sentinel (request_queue s))"
    and b: "outbound_closed ((next_request ^^ n) s) = (None \<in> set (take n (request_queue s)))"
    using next_request_funpow [OF assms(2), of n] assms(1) by simp_all
  have c: "None \<notin> set (outbound ((next_request ^^ n) s))"
    using None_notin_before_sentinel [of "request_queue s"] unfolding a
    by (auto dest: in_set_takeD)
  have d: "outbound (drain s) = before_sentinel (request_queue s)"
    using assms by (simp add: drain_flow flow_def)
  have e: "outbound_closed (drain s) = (None \<in> set (request_queue s))"
    using assms by (simp add: drain_sealed sealed_def)
  show ?thesis using a b c d e by (simp add: before_sentinel_def)
qed

theorem request_iterator_stops_at_sentinel_witness:
  "outbound (run [Caller (Set_logstream_level 10), Close_put, Caller Disable_logs]
              (init () [])) = [] \<and>
   \<not> outbound_closed (run [Caller (Set_logstream_level 10), Close_put, Caller Disable_logs]
              (init () [])) \<and>
   outbound ((next_request ^^ 3)
      (run [Caller (Set_logstream_level 10), Close_put, Caller Disable_logs] (init () []))) =
     [Some \<lparr>enabled = True, loglevel = 10\<rparr>] \<and>
   outbound_closed ((next_request ^^ 3)
      (run [Caller (Set_logstream_level 10), Close_put, Caller Disable_logs] (init () [])))"
proof -
  let ?s = "run [Caller (Set_logstream_level 10), Close_put, Caller Disable_logs]
              ((init () []) :: unit state)"
  have q: "request_queue ?s =
      [Some \<lparr>enabled = True, loglevel = 10\<rparr>, None, Some \<lparr>enabled = False, loglevel = 0\<rparr>]"
    by (simp add: set_logstream_level_eq int32_def disable_logs_def put_def init_def
        LogSettingsRequest_def)
  have h1: "outbound ?s = []"
    by (simp add: set_logstream_level_eq int32_def disable_logs_def put_def init_def)
  have h2: "\<not> outbound_closed ?s"
    by (simp add: set_logstream_level_eq int32_def disable_logs_def put_def init_def)
  show ?thesis
    using h1 h2 request_iterator_stops_at_sentinel [OF h1 h2, of 3] unfolding q by simp
qed

text \<open>
  C5: take any schedule in which callers make \<^verbatim>\<open>set_logstream_level\<close> and
  \<^verbatim>\<open>disable_logs\<close> calls, in some order, while the transport takes messages whenever
  it does. A call builds a request unless its level is outside the range of the
  request's field, in which case it raises and puts nothing. At every moment, the
  messages the outbound half has carried, followed by the requests still waiting in
  the queue, are the requests of the calls that put one, in the order the calls were
  made; and once the transport has taken all the queue holds, the outbound half has
  carried every one of them, in that order.
\<close>

theorem requests_sent_in_call_order:
  assumes "Close_put \<notin> set evs"
  shows "outbound (run evs (init w md)) @ request_queue (run evs (init w md)) =
           map (\<lambda>c. Some (request_of c)) (filter accepted (calls evs)) \<and>
         outbound (drain (run evs (init w md))) =
           map (\<lambda>c. Some (request_of c)) (filter accepted (calls evs))"
proof -
  let ?s = "run evs (init w md)"
  let ?reqs = "map (\<lambda>c. Some (request_of c)) (filter accepted (calls evs))"
  have puts: "concat (map enqueued evs) = ?reqs"
    using assms by (rule enqueued_no_close)
  have none: "None \<notin> set ?reqs" by auto
  have "\<not> sealed ?s"
    using assms by (simp add: sealed_run_init)
  then have open_s: "\<not> outbound_closed ?s" and q: "None \<notin> set (request_queue ?s)"
    by (simp_all add: sealed_def)
  have fl: "flow ?s = ?reqs"
    using none by (simp add: flow_run flow_init sealed_init puts before_sentinel_id del: set_map)
  have "flow ?s = outbound ?s @ request_queue ?s"
    using open_s q by (simp add: flow_def before_sentinel_id)
  then show ?thesis using fl by (simp add: drain_flow)
qed

theorem requests_sent_in_call_order_witness:
  "Close_put \<notin> set [Caller (Set_logstream_level 10), Transport_next, Caller Disable_logs,
                      Caller (Set_logstream_level 2147483648),
                      Caller (Set_logstream_level 30)] \<and>
   outbound (drain (run [Caller (Set_logstream_level 10), Transport_next, Caller Disable_logs,
                         Caller (Set_logstream_level 2147483648),
                         Caller (Set_logstream_level 30)] (init () []))) =
     [Some \<lparr>enabled = True, loglevel = 10\<rparr>, Some \<lparr>enabled = False, loglevel = 0\<rparr>,
      Some \<lparr>enabled = True, loglevel = 30\<rparr>]"
proof -
  let ?evs = "[Caller (Set_logstream_level 10), Transport_next, Caller Disable_logs,
               Caller (Set_logstream_level 2147483648), Caller (Set_logstream_level 30)]"
  have h: "Close_put \<notin> set ?evs"
    by simp
  have r: "map (\<lambda>c. Some (request_of c)) (filter accepted (calls ?evs)) =
      [Some \<lparr>enabled = True, loglevel = 10\<rparr>, Some \<lparr>enabled = False, loglevel = 0\<rparr>,
       Some \<lparr>enabled = True, loglevel = 30\<rparr>]"
    by (simp add: int32_def)
  show ?thesis
    using h requests_sent_in_call_order [OF h, of "()" "[]"] unfolding r by simp
qed

text \<open>
  C6: in any schedule of calls, \<^verbatim>\<open>close\<close>'s \<^verbatim>\<open>put(None)\<close> and transport requests,
  whenever the outbound half is closed it has carried the request of every call that
  put one before the first \<^verbatim>\<open>put(None)\<close>, in order; and once a \<^verbatim>\<open>put(None)\<close> has
  happened and the transport has taken all the queue holds, the outbound half is closed
  and has carried every one of them.
\<close>

theorem requests_before_close_all_sent:
  "(outbound_closed (run evs (init w md)) \<longrightarrow>
      outbound (run evs (init w md)) =
        map (\<lambda>c. Some (request_of c))
          (filter accepted (calls (takeWhile (\<lambda>e. e \<noteq> Close_put) evs)))) \<and>
   (Close_put \<in> set evs \<longrightarrow>
      outbound_closed (drain (run evs (init w md))) \<and>
      outbound (drain (run evs (init w md))) =
        map (\<lambda>c. Some (request_of c))
          (filter accepted (calls (takeWhile (\<lambda>e. e \<noteq> Close_put) evs))))"
proof -
  let ?s = "run evs (init w md)"
  have fl: "flow ?s =
      map (\<lambda>c. Some (request_of c))
        (filter accepted (calls (takeWhile (\<lambda>e. e \<noteq> Close_put) evs)))"
    by (simp add: flow_run flow_init sealed_init enqueued_before_close)
  have sl: "sealed ?s = (Close_put \<in> set evs)"
    by (rule sealed_run_init)
  have "outbound_closed ?s \<Longrightarrow> flow ?s = outbound ?s"
    by (simp add: flow_def)
  then show ?thesis using fl sl by (auto simp: drain_flow drain_sealed)
qed

theorem requests_before_close_all_sent_witness:
  "outbound_closed (run [Caller Disable_logs, Caller (Set_logstream_level 10), Close_put,
                         Transport_next, Transport_next, Transport_next] (init () [])) \<and>
   Close_put \<in> set [Caller Disable_logs, Caller (Set_logstream_level 10), Close_put,
                     Transport_next, Transport_next, Transport_next] \<and>
   outbound (run [Caller Disable_logs, Caller (Set_logstream_level 10), Close_put,
                  Transport_next, Transport_next, Transport_next] (init () [])) =
     [Some \<lparr>enabled = False, loglevel = 0\<rparr>, Some \<lparr>enabled = True, loglevel = 10\<rparr>] \<and>
   outbound (drain (run [Caller Disable_logs, Caller (Set_logstream_level 10), Close_put,
                  Transport_next, Transport_next, Transport_next] (init () []))) =
     [Some \<lparr>enabled = False, loglevel = 0\<rparr>, Some \<lparr>enabled = True, loglevel = 10\<rparr>]"
proof -
  let ?evs = "[Caller Disable_logs, Caller (Set_logstream_level 10), Close_put,
               Transport_next, Transport_next, Transport_next]"
  have h1: "outbound_closed (run ?evs ((init () []) :: unit state))"
    by (simp add: disable_logs_def set_logstream_level_eq int32_def put_def
        next_request_def init_def LogSettingsRequest_def)
  have h2: "Close_put \<in> set ?evs" by simp
  have r: "map (\<lambda>c. Some (request_of c))
             (filter accepted (calls (takeWhile (\<lambda>e. e \<noteq> Close_put) ?evs))) =
      [Some \<lparr>enabled = False, loglevel = 0\<rparr>, Some \<lparr>enabled = True, loglevel = 10\<rparr>]"
    by (simp add: int32_def)
  show ?thesis
    using h1 h2 requests_before_close_all_sent [of ?evs "()" "[]"] unfolding r by simp
qed

text \<open>
  C9, as the claim states it, fails: a call with the level \<open>2147483648\<close>, one more than
  the request's field can hold, sets the logger's level, raises \<^verbatim>\<open>ValueError\<close> and puts
  nothing on the queue.
\<close>

theorem set_logstream_level_out_of_range_enqueues_nothing:
  "set_logstream_level 2147483648 (init () []) =
     ((init () [])\<lparr>logger_level := 2147483648\<rparr>, Some (Other ''ValueError'')) \<and>
   request_queue (fst (set_logstream_level 2147483648 (init () []))) = []"
  by (simp add: set_logstream_level_eq int32_def init_def)

text \<open>
  C9, amended: a call \<^verbatim>\<open>set_logstream_level(level)\<close> whose level is in the range of the
  request's 32-bit field returns normally, having set the logger's level and appended
  to the queue one request with \<^verbatim>\<open>enabled\<close> true and \<^verbatim>\<open>loglevel\<close> the level, and nothing
  else; made after a \<^verbatim>\<open>disable_logs()\<close>, it makes the outbound half carry the disabling
  request and then a request with \<^verbatim>\<open>enabled\<close> true, which is the last word the server
  gets.
\<close>

theorem set_logstream_level_enqueues_enabled:
  assumes "int32 lv"
  shows "set_logstream_level lv s =
           (s\<lparr>logger_level := lv,
              request_queue := request_queue s @ [Some \<lparr>enabled = True, loglevel = lv\<rparr>]\<rparr>,
            None) \<and>
         outbound (drain (fst (set_logstream_level lv (disable_logs (init w md))))) =
           [Some \<lparr>enabled = False, loglevel = 0\<rparr>, Some \<lparr>enabled = True, loglevel = lv\<rparr>]"
  using assms
  by (simp add: drain_flow flow_def set_logstream_level_eq disable_logs_def put_def
      LogSettingsRequest_def init_def)

theorem set_logstream_level_enqueues_enabled_witness:
  "int32 10 \<and>
   set_logstream_level 10 (disable_logs (init () [])) =
     ((disable_logs (init () []))
        \<lparr>logger_level := 10,
           request_queue := [Some \<lparr>enabled = False, loglevel = 0\<rparr>,
                             Some \<lparr>enabled = True, loglevel = 10\<rparr>]\<rparr>, None) \<and>
   outbound (drain (fst (set_logstream_level 10 (disable_logs (init () []))))) =
     [Some \<lparr>enabled = False, loglevel = 0\<rparr>, Some \<lparr>enabled = True, loglevel = 10\<rparr>]"
proof -
  have h: "int32 10" by (simp add: int32_def)
  have q: "request_queue (disable_logs ((init () []) :: unit state)) =
      [Some \<lparr>enabled = False, loglevel = 0\<rparr>]"
    by (simp add: disable_logs_def put_def LogSettingsRequest_def init_def)
  note r = set_logstream_level_enqueues_enabled
      [OF h, of "disable_logs ((init () []) :: unit state)" "()" "[]"]
  show ?thesis
  proof (intro conjI)
    show "int32 10" by (rule h)
    show "set_logstream_level 10 (disable_logs ((init () []) :: unit state)) =
        ((disable_logs (init () []))
           \<lparr>logger_level := 10,
              request_queue := [Some \<lparr>enabled = False, loglevel = 0\<rparr>,
                                Some \<lparr>enabled = True, loglevel = 10\<rparr>]\<rparr>, None)"
      using r [THEN conjunct1] by (simp add: q)
    show "outbound (drain (fst (set_logstream_level 10
             (disable_logs ((init () []) :: unit state))))) =
        [Some \<lparr>enabled = False, loglevel = 0\<rparr>, Some \<lparr>enabled = True, loglevel = 10\<rparr>]"
      by (rule r [THEN conjunct2])
  qed
qed

subsection \<open>The worker\<close>

lemma for_record_default_Next:
  "for_record (returning stdstream) (returning log) (Next r rest) s =
     for_record (returning stdstream) (returning log) rest
       (log (level r) (msg r) (if level r < 0 then stdstream (level r) (msg r) s else s))"
  by (simp add: returning_def)

text \<open>
  C1: with the module's own \<^verbatim>\<open>log\<close> and \<^verbatim>\<open>stdstream\<close>, the loop calls
  \<^verbatim>\<open>logger.log\<close> once for every record the inbound stream yields, in order, with the
  record's level and message as they are, whatever the sign of the level; the text
  written to the standard streams is the messages of the records of negative level and
  of no other record (those of level \<open>-2\<close> on the error stream, the other negative ones
  on the output stream); and the loop ends as the stream ends.
\<close>

theorem for_record_dispatches_every_record:
  "logger_calls (fst (for_record (returning stdstream) (returning log) st s)) =
     logger_calls s @ map (\<lambda>r. Logger_log (level r) (msg r)) (records_of st) \<and>
   stdout (fst (for_record (returning stdstream) (returning log) st s)) =
     stdout s @ concat (map msg (filter (\<lambda>r. level r < 0 \<and> level r \<noteq> - 2) (records_of st))) \<and>
   stderr (fst (for_record (returning stdstream) (returning log) st s)) =
     stderr s @ concat (map msg (filter (\<lambda>r. level r = - 2) (records_of st))) \<and>
   snd (for_record (returning stdstream) (returning log) st s) = ending st"
proof (induction st arbitrary: s)
  case (Next r rest)
  let ?s' = "log (level r) (msg r) (if level r < 0 then stdstream (level r) (msg r) s else s)"
  have calls': "logger_calls ?s' = logger_calls s @ [Logger_log (level r) (msg r)]"
    by (simp add: log_def logger_log_def stdstream_def)
  have out': "stdout ?s' = stdout s @ (if level r < 0 \<and> level r \<noteq> - 2 then msg r else [])"
    by (simp add: log_def logger_log_def stdstream_def)
  have err': "stderr ?s' = stderr s @ (if level r = - 2 then msg r else [])"
    by (simp add: log_def logger_log_def stdstream_def)
  show ?case
    unfolding for_record_default_Next
    using Next.IH [of ?s'] by (simp only: calls' out' err') simp
qed simp_all



text \<open>
  C3: when the loop of \<^verbatim>\<open>_log_main\<close> ends with a \<^verbatim>\<open>grpc.RpcError\<close>, the worker
  returns normally, and the state it leaves is the one the loop left with exactly one
  more call on the logger: \<^verbatim>\<open>logger.info\<close> for the status \<^verbatim>\<open>CANCELLED\<close>,
  \<^verbatim>\<open>logger.info\<close> for \<^verbatim>\<open>UNAVAILABLE\<close> and \<^verbatim>\<open>RESOURCE_EXHAUSTED\<close>, and for every other
  status \<^verbatim>\<open>logger.exception\<close>, which logs at the error level, with a message that ends
  with the text of the error. Nothing else changes: no write to a standard stream, no
  new request, no second stream.
\<close>

theorem rpc_error_classified_once:
  assumes "for_record sm lm
             (Logstream (outbound (drain s)) (outbound_closed (drain s)) (metadata (drain s)))
             (drain s) = (s2, Raises (Rpc e))"
  shows "log_main Logstream sm lm s =
           (s2\<lparr>logger_calls := logger_calls s2 @
              [if code e = CANCELLED then Logger_info ''Cancelling logs channel''
               else if code e = UNAVAILABLE \<or> code e = RESOURCE_EXHAUSTED
                 then Logger_info ''Server disconnected from logs channel''
               else Logger_exception
                      (''Got Error from logger channel -- shutting down: '' @ str e)]\<rparr>,
            Returns) \<and>
         levelno (last (logger_calls (fst (log_main Logstream sm lm s)))) =
           (if code e \<in> {CANCELLED, UNAVAILABLE, RESOURCE_EXHAUSTED} then 20 else 40)"
  using assms
  by (simp add: log_main_def Let_def process_rpc_error_def logger_info_def logger_exception_def)

theorem rpc_error_classified_once_witness:
  "for_record (returning stdstream) (returning log)
     (scripted (Next \<lparr>level = 20, msg = ''x''\<rparr> (Raise (Rpc \<lparr>code = INTERNAL, str = ''boom''\<rparr>)))
        (outbound (drain (init () []))) (outbound_closed (drain (init () [])))
        (metadata (drain (init () []))))
     (drain (init () [])) =
     (log 20 ''x'' (init () []), Raises (Rpc \<lparr>code = INTERNAL, str = ''boom''\<rparr>)) \<and>
   log_main
     (scripted (Next \<lparr>level = 20, msg = ''x''\<rparr> (Raise (Rpc \<lparr>code = INTERNAL, str = ''boom''\<rparr>))))
     (returning stdstream) (returning log) (init () []) =
     ((log 20 ''x'' (init () []))
        \<lparr>logger_calls :=
           [Logger_log 20 ''x'',
            Logger_exception ''Got Error from logger channel -- shutting down: boom'']\<rparr>,
      Returns)"
proof -
  let ?st = "Next \<lparr>level = 20, msg = ''x''\<rparr> (Raise (Rpc \<lparr>code = INTERNAL, str = ''boom''\<rparr>))"
  let ?s = "(init () []) :: unit state"
  have d: "drain ?s = ?s" by (simp add: drain_def init_def)
  have h: "for_record (returning stdstream) (returning log)
             (scripted ?st (outbound (drain ?s)) (outbound_closed (drain ?s))
                (metadata (drain ?s)))
             (drain ?s) =
           (log 20 ''x'' ?s, Raises (Rpc \<lparr>code = INTERNAL, str = ''boom''\<rparr>))"
    by (simp add: d scripted_def returning_def)
  have c: "logger_calls (log 20 ''x'' ?s) = [Logger_log 20 ''x'']"
    by (simp add: log_def logger_log_def init_def)
  show ?thesis
    using h rpc_error_classified_once
      [where Logstream = "scripted ?st" and sm = "returning stdstream"
         and lm = "returning log" and s = ?s, OF h]
    by (simp add: c)
qed








subsection \<open>Shutdown\<close>

text \<open>
  Without the sentinel the join can wait for ever: on a new client whose server keeps
  its half open until the outbound half is closed, the worker never returns.
\<close>

lemma join_without_sentinel_blocks:
  "snd (join closing_server sm lm Alive (init w md)) = Blocked"
  by (simp add: log_main_def drain_def init_def closing_server_def Let_def)








end
